theory Spec2Isabelle
  imports Main "HOL-Library.AList" "HOL-Library.Char_ord" "HOL-Library.List_Lexorder"
begin

section \<open>Python strings\<close>

text \<open>
  The scraper is the Python script \<^verbatim>\<open>scrape\<close>. Its strings are modelled as \<open>string\<close>
  (lists of characters). URLs are ASCII text, and the character classes below follow
  Python's \<^verbatim>\<open>str\<close> methods and \<^verbatim>\<open>re\<close> classes on the ASCII range; a character
  outside it is treated as uncased, non-word and non-space.
\<close>

definition ascii_lowercase :: string where
  "ascii_lowercase = ''abcdefghijklmnopqrstuvwxyz''"

definition ascii_uppercase :: string where
  "ascii_uppercase = ''ABCDEFGHIJKLMNOPQRSTUVWXYZ''"

definition digits :: string where
  "digits = ''0123456789''"

definition is_lower :: "char \<Rightarrow> bool" where
  "is_lower c = (c \<in> set ascii_lowercase)"

definition is_upper :: "char \<Rightarrow> bool" where
  "is_upper c = (c \<in> set ascii_uppercase)"

definition is_digit :: "char \<Rightarrow> bool" where
  "is_digit c = (c \<in> set digits)"

definition is_word :: "char \<Rightarrow> bool" where
  \<comment> \<open>the class \<^verbatim>\<open>\w\<close> of \<^verbatim>\<open>re\<close>\<close>
  "is_word c = (is_lower c \<or> is_upper c \<or> is_digit c \<or> c = CHR ''_'')"

definition is_space :: "char \<Rightarrow> bool" where
  \<comment> \<open>the class \<^verbatim>\<open>\s\<close> of \<^verbatim>\<open>re\<close>, which is also what \<^verbatim>\<open>str.strip()\<close> removes\<close>
  "is_space c = (c \<in> set [CHR '' '', CHR 0x09, CHR 0x0A, CHR 0x0B, CHR 0x0C, CHR 0x0D,
                             CHR 0x1C, CHR 0x1D, CHR 0x1E, CHR 0x1F])"

definition to_upper :: "char \<Rightarrow> char" where
  "to_upper c = (case map_of (zip ascii_lowercase ascii_uppercase) c of Some u \<Rightarrow> u | None \<Rightarrow> c)"

definition to_lower :: "char \<Rightarrow> char" where
  "to_lower c = (case map_of (zip ascii_uppercase ascii_lowercase) c of Some l \<Rightarrow> l | None \<Rightarrow> c)"

definition lower :: "string \<Rightarrow> string" where
  \<comment> \<open>\<^verbatim>\<open>str.lower()\<close>\<close>
  "lower s = map to_lower s"

definition startswith :: "string \<Rightarrow> string \<Rightarrow> bool" where
  "startswith s pre = (take (length pre) s = pre)"

definition endswith :: "string \<Rightarrow> string \<Rightarrow> bool" where
  "endswith s suf = (length suf \<le> length s \<and> drop (length s - length suf) s = suf)"

fun title_from :: "bool \<Rightarrow> string \<Rightarrow> string" where
  \<comment> \<open>\<^verbatim>\<open>str.title()\<close>; the flag is CPython's \<^verbatim>\<open>previous_is_cased\<close>\<close>
  "title_from previous_is_cased [] = []"
| "title_from previous_is_cased (c # cs) =
     (if is_lower c then (if previous_is_cased then c else to_upper c) # title_from True cs
      else if is_upper c then (if previous_is_cased then to_lower c else c) # title_from True cs
      else c # title_from False cs)"

definition title :: "string \<Rightarrow> string" where
  "title s = title_from False s"

definition strip :: "string \<Rightarrow> string" where
  \<comment> \<open>\<^verbatim>\<open>str.strip()\<close>\<close>
  "strip s = rev (dropWhile is_space (rev (dropWhile is_space s)))"

fun str_split :: "char \<Rightarrow> string \<Rightarrow> string list" where
  \<comment> \<open>\<^verbatim>\<open>s.split(sep)\<close> for a one-character separator: never the empty list\<close>
  "str_split sep [] = [[]]"
| "str_split sep (c # cs) =
     (if c = sep then [] # str_split sep cs
      else (case str_split sep cs of [] \<Rightarrow> [[c]] | x # xs \<Rightarrow> (c # x) # xs))"

definition split_once :: "char \<Rightarrow> string \<Rightarrow> string \<times> string" where
  \<comment> \<open>\<^verbatim>\<open>s.split(sep, 1)\<close> when \<open>sep\<close> occurs in \<open>s\<close>; \<open>(s, '''')\<close> when it does not\<close>
  "split_once sep s =
     (takeWhile (\<lambda>c. c \<noteq> sep) s, drop (length (takeWhile (\<lambda>c. c \<noteq> sep) s) + 1) s)"

fun str_nat :: "nat \<Rightarrow> string" where
  \<comment> \<open>the decimal text of a non-negative integer, as an f-string prints it\<close>
  "str_nat n = (if n < 10 then [digits ! n] else str_nat (n div 10) @ [digits ! (n mod 10)])"

declare str_nat.simps [simp del]

section \<open>urllib.parse.urlparse\<close>

text \<open>
  \<^verbatim>\<open>urlparse\<close> follows CPython's \<^verbatim>\<open>urllib.parse\<close>: leading control characters and spaces
  are stripped, tabs and newlines removed, then the scheme, the network location
  (after \<^verbatim>\<open>//\<close>, up to the first of \<^verbatim>\<open>/?#\<close>), the fragment, the query and the
  parameters of the last path segment are split off in this order. A network location
  with an unmatched square bracket raises \<^verbatim>\<open>ValueError\<close>; the validation of what stands
  between matched brackets is not modelled.
\<close>

datatype error =
    ValueError string
  | AttributeError string
  | OSError string
  | RuntimeError string

record parse_result =
  scheme :: string
  netloc :: string
  path :: string
  params :: string
  query :: string
  fragment :: string

definition scheme_chars :: string where
  "scheme_chars = ascii_lowercase @ ascii_uppercase @ digits @ ''+-.''"

definition uses_params :: "string list" where
  "uses_params = ['''', ''ftp'', ''hdl'', ''prospero'', ''http'', ''imap'', ''https'', ''shttp'',
                  ''rtsp'', ''rtsps'', ''rtspu'', ''sip'', ''sips'', ''mms'', ''sftp'', ''tel'']"

definition split_scheme :: "string \<Rightarrow> string \<times> string" where
  "split_scheme url =
     (let pre = takeWhile (\<lambda>c. c \<noteq> CHR '':'') url in
      if length pre < length url \<and> pre \<noteq> [] \<and> (is_lower (hd pre) \<or> is_upper (hd pre))
         \<and> list_all (\<lambda>c. c \<in> set scheme_chars) pre
      then (lower pre, drop (length pre + 1) url)
      else ('''', url))"

definition splitnetloc :: "string \<Rightarrow> string \<times> string" where
  \<comment> \<open>\<^verbatim>\<open>_splitnetloc(url, 2)\<close>\<close>
  "splitnetloc url =
     (let nl = takeWhile (\<lambda>c. c \<notin> set ''/?#'') (drop 2 url)
      in (nl, drop (2 + length nl) url))"

definition splitparams :: "string \<Rightarrow> string \<times> string" where
  \<comment> \<open>\<^verbatim>\<open>_splitparams\<close>: the first \<^verbatim>\<open>;\<close> at or after the last \<^verbatim>\<open>/\<close>\<close>
  "splitparams url =
     (let k = (if CHR ''/'' \<in> set url
               then length url - 1 - length (takeWhile (\<lambda>c. c \<noteq> CHR ''/'') (rev url))
               else 0);
          i = k + length (takeWhile (\<lambda>c. c \<noteq> CHR '';'') (drop k url))
      in if i < length url then (take i url, drop (i + 1) url) else (url, ''''))"

definition urlparse :: "string \<Rightarrow> error + parse_result" where
  "urlparse url0 =
     (let url1 = filter (\<lambda>c. c \<notin> set [CHR 0x09, CHR 0x0D, CHR 0x0A])
                   (dropWhile (\<lambda>c. (of_char c :: nat) \<le> 32) url0);
          (sch, url2) = split_scheme url1;
          (nl, url3) = (if take 2 url2 = ''//'' then splitnetloc url2 else ('''', url2))
      in if (CHR ''['' \<in> set nl) \<noteq> (CHR '']'' \<in> set nl)
         then Inl (ValueError ''Invalid IPv6 URL'')
         else
           (let (url4, frag) = split_once CHR ''#'' url3;
                (url5, qry) = split_once CHR ''?'' url4;
                (pth, prm) = (if sch \<in> set uses_params \<and> CHR '';'' \<in> set url5
                              then splitparams url5 else (url5, ''''))
            in Inr \<lparr>scheme = sch, netloc = nl, path = pth, params = prm,
                     query = qry, fragment = frag\<rparr>))"

section \<open>FileOrganizer\<close>

definition re_sub_nonword :: "string \<Rightarrow> string" where
  \<comment> \<open>\<^verbatim>\<open>re.sub(r"[^\w\-]", " ", name)\<close>\<close>
  "re_sub_nonword name = map (\<lambda>c. if is_word c \<or> c = CHR ''-'' then c else CHR '' '') name"

function re_sub_spaces :: "string \<Rightarrow> string" where
  \<comment> \<open>\<^verbatim>\<open>re.sub(r"\s+", " ", name)\<close>: each maximal run of whitespace becomes one space\<close>
  "re_sub_spaces [] = []"
| "re_sub_spaces (c # cs) =
     (if is_space c then CHR '' '' # re_sub_spaces (dropWhile is_space cs)
      else c # re_sub_spaces cs)"
  by pat_completeness auto
termination
  by (relation "measure length") (auto simp: le_imp_less_Suc length_dropWhile_le)

definition clean_filename :: "string \<Rightarrow> string" where
  "clean_filename name0 =
     (let name1 = re_sub_nonword name0;
          name2 = re_sub_spaces name1;
          name3 = title (strip name2);
          name4 = map (\<lambda>c. if c = CHR '' '' then CHR ''_'' else c) name3
      in name4)"

fun join2 :: "string \<Rightarrow> string \<Rightarrow> string" where
  \<comment> \<open>one round of the loop of \<^verbatim>\<open>posixpath.join\<close>\<close>
  "join2 pth b =
     (if startswith b ''/'' then b
      else if pth = [] \<or> endswith pth ''/'' then pth @ b
      else pth @ ''/'' @ b)"

definition os_path_join :: "string \<Rightarrow> string list \<Rightarrow> string" where
  "os_path_join a p = foldl join2 a p"

subsection \<open>Numbered filenames\<close>

lemma digits_nth_eq:
  assumes "i < 10" "j < 10" "digits ! i = digits ! j"
  shows "i = j"
proof -
  have "distinct digits" by (simp add: digits_def)
  moreover have "length digits = 10" by (simp add: digits_def)
  ultimately show ?thesis using assms by (simp add: nth_eq_iff_index_eq)
qed

lemma str_nat_not_Nil: "str_nat n \<noteq> []"
  by (subst str_nat.simps) simp

lemma str_nat_inj: "str_nat n = str_nat m \<Longrightarrow> n = m"
proof (induction n arbitrary: m rule: str_nat.induct)
  case (1 n)
  show ?case
  proof (cases "n < 10")
    case True
    show ?thesis
    proof (cases "m < 10")
      case mlt: True
      from "1.prems" True mlt have "digits ! n = digits ! m"
        by (simp add: str_nat.simps[of n] str_nat.simps[of m])
      then show ?thesis using True mlt by (rule_tac digits_nth_eq)
    next
      case False
      with "1.prems" True have "[digits ! n] = str_nat (m div 10) @ [digits ! (m mod 10)]"
        by (simp add: str_nat.simps[of n] str_nat.simps[of m])
      then have "str_nat (m div 10) = []" by simp
      then show ?thesis by (simp add: str_nat_not_Nil)
    qed
  next
    case False
    show ?thesis
    proof (cases "m < 10")
      case True
      with "1.prems" False have "str_nat (n div 10) @ [digits ! (n mod 10)] = [digits ! m]"
        by (simp add: str_nat.simps[of n] str_nat.simps[of m])
      then have "str_nat (n div 10) = []" by simp
      then show ?thesis by (simp add: str_nat_not_Nil)
    next
      case mge: False
      from "1.prems" False mge
      have eq: "str_nat (n div 10) @ [digits ! (n mod 10)] = str_nat (m div 10) @ [digits ! (m mod 10)]"
        by (simp add: str_nat.simps[of n] str_nat.simps[of m])
      then have a: "str_nat (n div 10) = str_nat (m div 10)"
        and b: "digits ! (n mod 10) = digits ! (m mod 10)" by simp_all
      from "1.IH"[OF False a] have d: "n div 10 = m div 10" .
      have "n mod 10 = m mod 10" using b by (intro digits_nth_eq) simp_all
      with d show ?thesis by (metis div_mult_mod_eq)
    qed
  qed
qed

definition numbered :: "string \<Rightarrow> nat \<Rightarrow> string" where
  \<comment> \<open>the f-string \<^verbatim>\<open>f"{filename_base}_{counter}.md"\<close>\<close>
  "numbered filename_base counter = filename_base @ ''_'' @ str_nat counter @ ''.md''"

lemma numbered_inj: "numbered b i = numbered b j \<Longrightarrow> i = j"
  by (simp add: numbered_def str_nat_inj)

lemma filter_shrinks:
  assumes "\<And>x. Q x \<Longrightarrow> P x" "x \<in> set xs" "P x" "\<not> Q x"
  shows "length (filter Q xs) < length (filter P xs)"
proof -
  have eq: "filter Q xs = filter Q (filter P xs)"
    using assms(1) by (induction xs) auto
  have "x \<in> set (filter P xs)" using assms by simp
  then have "length (filter Q (filter P xs)) < length (filter P xs)"
    using assms(4) by (rule length_filter_less)
  then show ?thesis by (simp only: eq)
qed

text \<open>
  The \<^verbatim>\<open>while True\<close> loop of \<^verbatim>\<open>organize_path\<close>. A dictionary has finitely many keys
  and the numbered names are pairwise different, so the loop ends.
\<close>

function find_unused :: "string \<Rightarrow> (string \<times> string) list \<Rightarrow> nat \<Rightarrow> string" where
  "find_unused filename_base names counter =
     (let new_filename = numbered filename_base counter
      in if map_of names new_filename = None then new_filename
         else find_unused filename_base names (counter + 1))"
  by pat_completeness auto
termination
proof (relation "measure (\<lambda>(b, names, counter).
          length (filter (\<lambda>kv. \<exists>j\<ge>counter. fst kv = numbered b j) names))", goal_cases)
  case 1
  show ?case by simp
next
  case (2 b names counter new)
  then obtain v where v: "(numbered b counter, v) \<in> set names"
    by (auto dest: map_of_SomeD)
  have "length (filter (\<lambda>kv. \<exists>j\<ge>counter + 1. fst kv = numbered b j) names)
        < length (filter (\<lambda>kv. \<exists>j\<ge>counter. fst kv = numbered b j) names)"
  proof (rule filter_shrinks[OF _ v])
    show "\<exists>j\<ge>counter. fst (numbered b counter, v) = numbered b j" by auto
    show "\<not> (\<exists>j\<ge>counter + 1. fst (numbered b counter, v) = numbered b j)"
      by (auto dest: numbered_inj)
    show "\<And>x. \<exists>j\<ge>counter + 1. fst x = numbered b j \<Longrightarrow> \<exists>j\<ge>counter. fst x = numbered b j"
      by (metis add_leD1)
  qed
  then show ?case by simp
qed

declare find_unused.simps [simp del]

subsection \<open>organize_path\<close>

text \<open>
  \<^verbatim>\<open>used_names\<close> is a \<^verbatim>\<open>defaultdict(dict)\<close>: every directory has a table, empty until
  written. The inner dictionary is an association list from filename to the URL that
  claimed it. \<^verbatim>\<open>organize_path\<close> returns the pair and the updated tables, or the
  exception that \<^verbatim>\<open>urlparse\<close> raised.
\<close>

type_synonym used_names = "string \<Rightarrow> (string \<times> string) list"

definition FileOrganizer :: used_names where
  \<comment> \<open>\<^verbatim>\<open>__init__\<close>\<close>
  "FileOrganizer = (\<lambda>directory_path. [])"

definition path_parts_of :: "parse_result \<Rightarrow> string list" where
  \<comment> \<open>\<^verbatim>\<open>[p for p in parsed.path.split("/") if p]\<close>\<close>
  "path_parts_of parsed = filter (\<lambda>p. p \<noteq> []) (str_split CHR ''/'' (path parsed))"

definition directory_path_of :: "string list \<Rightarrow> string" where
  "directory_path_of path_parts =
     (let directory_parts = filter (\<lambda>clean_part. clean_part \<noteq> [])
                              (map clean_filename (butlast path_parts))
      in if directory_parts \<noteq> []
         then os_path_join (hd directory_parts) (tl directory_parts) else '''')"

definition filename_base_of :: "string list \<Rightarrow> string" where
  "filename_base_of path_parts =
     (if path_parts \<noteq> []
      then (let filename_base = clean_filename (last path_parts)
            in if filename_base = [] then ''index'' else filename_base)
      else ''index'')"

definition organize_path ::
  "string \<Rightarrow> used_names \<Rightarrow> error + ((string \<times> string) \<times> used_names)" where
  "organize_path url used_names =
     (case urlparse url of
        Inl e \<Rightarrow> Inl e
      | Inr parsed \<Rightarrow>
          (let path_parts = path_parts_of parsed in
           if path_parts = [] then Inr (('''', ''index.md''), used_names)
           else
             (let directory_path = directory_path_of path_parts;
                  filename_base = filename_base_of path_parts;
                  filename = filename_base @ ''.md'';
                  names = used_names directory_path
              in if map_of names filename \<noteq> None
                 then (if map_of names filename = Some url
                       then Inr ((directory_path, filename), used_names)
                       else (let new_filename = find_unused filename_base names 1
                             in Inr ((directory_path, new_filename),
                                     used_names(directory_path :=
                                       AList.update new_filename url names))))
                 else Inr ((directory_path, filename),
                           used_names(directory_path := AList.update filename url names)))))"

fun organize_paths :: "used_names \<Rightarrow> string list \<Rightarrow> error + (string \<times> string) list" where
  \<comment> \<open>successive calls on one instance, as the loops of \<^verbatim>\<open>preview_file_structure\<close> and
      \<^verbatim>\<open>crawl_parallel\<close> make them; the value is the list of the pairs returned\<close>
  "organize_paths used_names [] = Inr []"
| "organize_paths used_names (url # urls) =
     (case organize_path url used_names of
        Inl e \<Rightarrow> Inl e
      | Inr (slot, used_names') \<Rightarrow>
          (case organize_paths used_names' urls of
             Inl e \<Rightarrow> Inl e
           | Inr slots \<Rightarrow> Inr (slot # slots)))"

subsection \<open>Facts about organize_path\<close>

lemma find_unused_numbered:
  "\<exists>k\<ge>counter. find_unused b names counter = numbered b k \<and> map_of names (numbered b k) = None"
proof (induction b names counter rule: find_unused.induct)
  case (1 b names counter)
  show ?case
  proof (cases "map_of names (numbered b counter) = None")
    case True
    then have "find_unused b names counter = numbered b counter"
      by (simp add: find_unused.simps[of b names counter] Let_def)
    with True show ?thesis by blast
  next
    case False
    then have eq: "find_unused b names counter = find_unused b names (counter + 1)"
      by (auto simp: find_unused.simps[of b names counter] Let_def)
    from "1.IH"[OF refl False] obtain k where "k \<ge> counter + 1"
      "find_unused b names (counter + 1) = numbered b k" "map_of names (numbered b k) = None"
      by blast
    with eq show ?thesis by (metis add_leD1)
  qed
qed

lemma organize_path_root:
  assumes "urlparse url = Inr parsed" "path_parts_of parsed = []"
  shows "organize_path url used = Inr (('''', ''index.md''), used)"
  using assms by (simp add: organize_path_def)

lemma organize_path_nonroot:
  assumes "urlparse url = Inr parsed" "path_parts_of parsed \<noteq> []"
    and "organize_path url used = Inr ((d, f), used')"
  shows "d = directory_path_of (path_parts_of parsed)"
    and "f = filename_base_of (path_parts_of parsed) @ ''.md''
         \<or> (\<exists>k\<ge>1. f = numbered (filename_base_of (path_parts_of parsed)) k)"
    and "map_of (used' d) f = Some url"
    and "map_of (used d) f = Some url \<and> used' = used
         \<or> map_of (used d) f = None \<and> used' = used(d := AList.update f url (used d))"
proof -
  let ?b = "filename_base_of (path_parts_of parsed)"
  let ?d = "directory_path_of (path_parts_of parsed)"
  obtain k where k: "k \<ge> 1" "find_unused ?b (used ?d) 1 = numbered ?b k"
    "map_of (used ?d) (numbered ?b k) = None"
    using find_unused_numbered[of 1 ?b "used ?d"] by blast
  from assms show "d = ?d"
    by (auto simp: organize_path_def Let_def split: if_splits)
  from assms k show "f = ?b @ ''.md'' \<or> (\<exists>k\<ge>1. f = numbered ?b k)"
    by (auto simp: organize_path_def Let_def split: if_splits)
  from assms k show "map_of (used' d) f = Some url"
    by (auto simp: organize_path_def Let_def update_conv' split: if_splits)
  from assms k show "map_of (used d) f = Some url \<and> used' = used
         \<or> map_of (used d) f = None \<and> used' = used(d := AList.update f url (used d))"
    by (auto simp: organize_path_def Let_def split: if_splits)
qed


text \<open>An entry of the naming table is never removed and never given to another URL.\<close>

lemma organize_path_keeps:
  assumes "organize_path url used = Inr (slot, used')" "map_of (used d0) f0 = Some v"
  shows "map_of (used' d0) f0 = Some v"
proof -
  from assms(1) obtain parsed where p: "urlparse url = Inr parsed"
    by (auto simp: organize_path_def split: sum.splits)
  obtain d f where slot: "slot = (d, f)" by (cases slot)
  show ?thesis
  proof (cases "path_parts_of parsed = []")
    case True
    with assms p show ?thesis by (simp add: organize_path_root)
  next
    case False
    from organize_path_nonroot(4)[OF p False assms(1)[unfolded slot]] assms(2)
    show ?thesis by (auto simp: update_conv')
  qed
qed

definition has_path_parts :: "string \<Rightarrow> bool" where
  \<comment> \<open>the URL parses and its path has a non-empty segment\<close>
  "has_path_parts url =
     (case urlparse url of Inl e \<Rightarrow> False | Inr parsed \<Rightarrow> path_parts_of parsed \<noteq> [])"

lemma organize_paths_Cons:
  assumes "organize_paths used (url # urls) = Inr slots"
  obtains slot used' slots' where "organize_path url used = Inr (slot, used')"
    "organize_paths used' urls = Inr slots'" "slots = slot # slots'"
  using assms by (auto split: sum.splits)

lemma organize_paths_claimed:
  assumes "organize_paths used urls = Inr slots" "map_of (used d0) f0 = Some v"
    "i < length urls" "has_path_parts (urls ! i)" "slots ! i = (d0, f0)"
  shows "urls ! i = v"
  using assms
proof (induction urls arbitrary: used slots i)
  case Nil
  then show ?case by simp
next
  case (Cons url urls)
  from Cons.prems(1) obtain slot used' slots' where
    s: "organize_path url used = Inr (slot, used')"
    "organize_paths used' urls = Inr slots'" "slots = slot # slots'"
    by (rule organize_paths_Cons)
  have keep: "map_of (used' d0) f0 = Some v"
    using organize_path_keeps[OF s(1) Cons.prems(2)] .
  show ?case
  proof (cases i)
    case 0
    with Cons.prems s have slot: "slot = (d0, f0)" and hp: "has_path_parts url" by simp_all
    from hp obtain parsed where p: "urlparse url = Inr parsed" "path_parts_of parsed \<noteq> []"
      by (auto simp: has_path_parts_def split: sum.splits)
    from organize_path_nonroot(3)[OF p s(1)[unfolded slot]] keep 0 show ?thesis by simp
  next
    case (Suc j)
    with Cons.prems s have "j < length urls" "has_path_parts (urls ! j)" "slots' ! j = (d0, f0)"
      by simp_all
    from Cons.IH[OF s(2) keep this] Suc show ?thesis by simp
  qed
qed

text \<open>
  Where the table is consulted it does its work: in one run, two URLs that both have a
  path segment and receive the same slot are the same URL.
\<close>

lemma organize_paths_no_collision:
  assumes "organize_paths used urls = Inr slots" "i < j" "j < length urls"
    "has_path_parts (urls ! i)" "has_path_parts (urls ! j)" "slots ! i = slots ! j"
  shows "urls ! i = urls ! j"
  using assms
proof (induction urls arbitrary: used slots i j)
  case Nil
  then show ?case by simp
next
  case (Cons url urls)
  from Cons.prems(1) obtain slot used' slots' where
    s: "organize_path url used = Inr (slot, used')"
    "organize_paths used' urls = Inr slots'" "slots = slot # slots'"
    by (rule organize_paths_Cons)
  from Cons.prems obtain j' where j: "j = Suc j'" by (cases j) auto
  show ?case
  proof (cases i)
    case 0
    obtain d f where slot: "slot = (d, f)" by (cases slot)
    from 0 Cons.prems obtain parsed where
      p: "urlparse url = Inr parsed" "path_parts_of parsed \<noteq> []"
      by (auto simp: has_path_parts_def split: sum.splits)
    have m: "map_of (used' d) f = Some url"
      using organize_path_nonroot(3)[OF p s(1)[unfolded slot]] .
    from Cons.prems j 0 s slot
    have "j' < length urls" "has_path_parts (urls ! j')" "slots' ! j' = (d, f)"
      by simp_all
    from organize_paths_claimed[OF s(2) m this] 0 j show ?thesis by simp
  next
    case (Suc i')
    with Cons.prems j s have "i' < j'" "j' < length urls" "has_path_parts (urls ! i')"
      "has_path_parts (urls ! j')" "slots' ! i' = slots' ! j'" by simp_all
    from Cons.IH[OF s(2) this] Suc j show ?thesis by simp
  qed
qed

subsection \<open>Collisions and repeated calls\<close>

text \<open>
  C1 (code defect). The claim: one FileOrganizer never gives the same (directory, filename)
  slot to two distinct URLs. The early return for a URL without path segments hands out
  \<^verbatim>\<open>("", "index.md")\<close> without consulting or recording the naming table, so the root
  URLs of two hosts, which are what \<^verbatim>\<open>main\<close> passes on, receive the same slot.
\<close>

theorem organize_path_root_urls_collide:
  "organize_paths FileOrganizer [''https://a.com/'', ''https://b.com/'']
   = Inr [('''', ''index.md''), ('''', ''index.md'')]"
  by code_simp

text \<open>
  C2 (code defect). The claim: any two calls with the same URL on one FileOrganizer return
  the same pair. The reuse test looks only at the unnumbered filename, so a URL that was
  given a numbered filename is given the next number when it is asked for again.
\<close>

theorem organize_path_renamed_url_not_reused:
  "organize_paths FileOrganizer [''https://x.com/a'', ''https://x.com/A'', ''https://x.com/A'']
   = Inr [('''', ''A.md''), ('''', ''A_1.md''), ('''', ''A_2.md'')]"
  by code_simp

subsection \<open>The path component decides directory and base filename\<close>










subsection \<open>clean_filename against the pipeline of the specification\<close>

text \<open>
  The specification describes the cleaning of a path segment as a pipeline: characters
  outside a kept class become spaces, runs of whitespace collapse to one space, the result
  is stripped and title-cased, and the remaining spaces become underscores.
  \<open>spec_pipeline\<close> is that description, written from its words, for a kept class
  \<open>keep\<close>; the specification's kept class is the word characters.
\<close>

fun collapse_runs :: "string \<Rightarrow> string" where
  \<comment> \<open>of a run of whitespace only its last character stays, as one space\<close>
  "collapse_runs [] = []"
| "collapse_runs [c] = [if is_space c then CHR '' '' else c]"
| "collapse_runs (c # d # cs) =
     (if is_space c \<and> is_space d then collapse_runs (d # cs)
      else (if is_space c then CHR '' '' else c) # collapse_runs (d # cs))"

definition spec_pipeline :: "(char \<Rightarrow> bool) \<Rightarrow> string \<Rightarrow> string" where
  "spec_pipeline keep segment =
     map (\<lambda>c. if c = CHR '' '' then CHR ''_'' else c)
       (title (strip (collapse_runs (map (\<lambda>c. if keep c then c else CHR '' '') segment))))"

lemma collapse_runs_space:
  "is_space c \<Longrightarrow> collapse_runs (c # cs) = CHR '' '' # collapse_runs (dropWhile is_space cs)"
  by (induction cs arbitrary: c) auto

lemma collapse_runs_nonspace:
  "\<not> is_space c \<Longrightarrow> collapse_runs (c # cs) = c # collapse_runs cs"
  by (cases cs) auto

lemma re_sub_spaces_collapse_runs: "re_sub_spaces s = collapse_runs s"
  by (induction s rule: re_sub_spaces.induct)
     (simp_all add: collapse_runs_space collapse_runs_nonspace)

lemma clean_filename_pipeline:
  "clean_filename name = spec_pipeline (\<lambda>c. is_word c \<or> c = CHR ''-'') name"
  by (simp add: clean_filename_def spec_pipeline_def re_sub_nonword_def
        re_sub_spaces_collapse_runs)

lemma clean_filename_no_hyphen:
  assumes "CHR ''-'' \<notin> set name"
  shows "clean_filename name = spec_pipeline is_word name"
proof -
  have eq: "map (\<lambda>c. if is_word c \<or> c = CHR ''-'' then c else CHR '' '') name
        = map (\<lambda>c. if is_word c then c else CHR '' '') name"
    using assms by (induction name) auto
  show ?thesis by (simp only: clean_filename_pipeline spec_pipeline_def eq)
qed

lemma organize_path_fresh:
  assumes "urlparse url = Inr parsed" "path_parts_of parsed \<noteq> []"
  shows "organize_paths FileOrganizer [url] =
         Inr [(directory_path_of (path_parts_of parsed),
               (if clean_filename (last (path_parts_of parsed)) = [] then ''index''
                else clean_filename (last (path_parts_of parsed))) @ ''.md'')]"
  using assms
  by (simp add: organize_path_def FileOrganizer_def filename_base_of_def Let_def)

text \<open>
  C7, as the claim states it, fails: a hyphen is not a word character, and the pipeline of
  the claim turns it into a space and then an underscore, while the regular expression of
  \<^verbatim>\<open>clean_filename\<close> excludes the hyphen from what it replaces.
\<close>

theorem clean_filename_hyphen_counterexample:
  "clean_filename ''a-b'' \<noteq> spec_pipeline is_word ''a-b''"
  by code_simp

text \<open>
  C7, amended. For every path segment, \<^verbatim>\<open>clean_filename\<close> equals the pipeline in which
  every character that is neither a word character nor a hyphen becomes a space, runs of
  whitespace collapse, the result is stripped and title-cased, and the remaining spaces
  become underscores; on a segment without a hyphen this is the pipeline of the
  specification. On a fresh organizer the filename of a URL with path segments is the
  cleaned last segment with \<^verbatim>\<open>.md\<close>, and \<^verbatim>\<open>index.md\<close> when cleaning yields the
  empty string.
\<close>

theorem clean_filename_is_pipeline:
  "clean_filename name = spec_pipeline (\<lambda>c. is_word c \<or> c = CHR ''-'') name
   \<and> (CHR ''-'' \<notin> set name \<longrightarrow> clean_filename name = spec_pipeline is_word name)
   \<and> (urlparse url = Inr parsed \<and> path_parts_of parsed \<noteq> [] \<longrightarrow>
        organize_paths FileOrganizer [url] =
          Inr [(directory_path_of (path_parts_of parsed),
                (if clean_filename (last (path_parts_of parsed)) = [] then ''index''
                 else clean_filename (last (path_parts_of parsed))) @ ''.md'')])"
  using clean_filename_pipeline clean_filename_no_hyphen organize_path_fresh by blast

lemma parse_docs: "urlparse ''https://x.com/docs/!!!'' =
  Inr \<lparr>scheme = ''https'', netloc = ''x.com'', path = ''/docs/!!!'', params = '''',
       query = '''', fragment = ''''\<rparr>"
  by code_simp

lemma path_parts_docs:
  "path_parts_of \<lparr>scheme = ''https'', netloc = ''x.com'', path = ''/docs/!!!'', params = '''',
       query = '''', fragment = ''''\<rparr> = [''docs'', ''!!!'']"
  by code_simp

lemma clean_examples:
  "clean_filename ''my page.html'' = ''My_Page_Html''"
  "clean_filename ''!!!'' = ''''"
  "directory_path_of [''docs'', ''!!!''] = ''Docs''"
  by code_simp+

theorem clean_filename_is_pipeline_witness:
  "CHR ''-'' \<notin> set ''my page.html''
   \<and> clean_filename ''my page.html'' = spec_pipeline is_word ''my page.html''
   \<and> clean_filename ''my page.html'' = ''My_Page_Html''
   \<and> urlparse ''https://x.com/docs/!!!'' =
       Inr \<lparr>scheme = ''https'', netloc = ''x.com'', path = ''/docs/!!!'', params = '''',
            query = '''', fragment = ''''\<rparr>
   \<and> organize_paths FileOrganizer [''https://x.com/docs/!!!''] = Inr [(''Docs'', ''index.md'')]"
proof -
  have h: "CHR ''-'' \<notin> set ''my page.html''" by simp
  note t = clean_filename_is_pipeline[of "''my page.html''" "''https://x.com/docs/!!!''"
      "\<lparr>scheme = ''https'', netloc = ''x.com'', path = ''/docs/!!!'', params = '''',
        query = '''', fragment = ''''\<rparr>"]
  from t h have a: "clean_filename ''my page.html'' = spec_pipeline is_word ''my page.html''"
    by blast
  from t parse_docs have b: "organize_paths FileOrganizer [''https://x.com/docs/!!!''] =
      Inr [(''Docs'', ''index.md'')]"
    by (simp add: path_parts_docs clean_examples)
  from h a b parse_docs clean_examples(1) show ?thesis by blast
qed

section \<open>Sitemap resolution\<close>

text \<open>
  The web is a finite collection of documents: an association list from URL to what an
  HTTP GET of it yields. A URL outside the list cannot be fetched
  (\<^verbatim>\<open>requests.RequestException\<close>, which covers an error status as well). A body is
  empty, or not well-formed XML, or a document with a root tag and the texts of its
  \<^verbatim>\<open>ns:loc\<close> elements in document order; the text of an empty element is \<^verbatim>\<open>None\<close>.
\<close>

datatype body = Empty | Malformed | Document string "string option list"

type_synonym web = "(string \<times> body) list"

record request =
  req_method :: string
  req_url :: "string option"
  req_params :: "(string \<times> nat) list"
  req_timeout :: "nat option"

definition requests_get ::
  "string option \<Rightarrow> (string \<times> nat) list \<Rightarrow> (string \<times> nat) list \<Rightarrow> request" where
  \<comment> \<open>\<^verbatim>\<open>requests.get(url, params=None, **kwargs)\<close>: the second positional argument is the
      query parameters; a timeout is the keyword argument \<^verbatim>\<open>timeout\<close>\<close>
  "requests_get url query_params kwargs =
     \<lparr>req_method = ''GET'', req_url = url, req_params = query_params,
      req_timeout = map_of kwargs ''timeout''\<rparr>"

definition http_get :: "web \<Rightarrow> request \<Rightarrow> body option" where
  \<comment> \<open>\<^verbatim>\<open>None\<close>: the request raised; a URL that is \<^verbatim>\<open>None\<close> is an invalid URL\<close>
  "http_get web req = (case req_url req of None \<Rightarrow> None | Some u \<Rightarrow> map_of web u)"

datatype message =
    FetchWarning "string option"
  | UnknownRootTag string "string option"
  | ParseErrorMessage "string option"
  | UnexpectedError "string option"

record resolver =
  all_final_urls :: "string set"
  sitemaps_to_process :: "string option list"
  processed_sitemaps :: "string option set"
  requests_sent :: "request list"
  console :: "message list"

definition fetch_url_content :: "web \<Rightarrow> string option \<Rightarrow> resolver \<Rightarrow> body option \<times> resolver" where
  \<comment> \<open>\<^verbatim>\<open>run_in_executor(None, requests.get, url, {"timeout": 10})\<close> calls
      \<^verbatim>\<open>requests.get(url, {"timeout": 10})\<close>\<close>
  "fetch_url_content web url st =
     (let req = requests_get url [(''timeout'', 10)] [];
          st' = st\<lparr>requests_sent := requests_sent st @ [req]\<rparr>
      in case http_get web req of
           None \<Rightarrow> (None, st'\<lparr>console := console st' @ [FetchWarning url]\<rparr>)
         | Some content \<Rightarrow> (Some content, st'))"

definition enqueue_new :: "string option \<Rightarrow> resolver \<Rightarrow> resolver" where
  "enqueue_new loc st =
     (if loc \<notin> processed_sitemaps st \<and> loc \<notin> set (sitemaps_to_process st)
      then st\<lparr>sitemaps_to_process := sitemaps_to_process st @ [loc]\<rparr>
      else st)"

fun index_locs :: "string option list \<Rightarrow> resolver \<Rightarrow> resolver" where
  \<comment> \<open>the loop over the locations of a sitemap index\<close>
  "index_locs [] st = st"
| "index_locs (loc # locs) st = index_locs locs (enqueue_new loc st)"

fun url_locs :: "string option list \<Rightarrow> resolver \<Rightarrow> error option \<times> resolver" where
  \<comment> \<open>the loop over the locations of a urlset; \<^verbatim>\<open>loc.lower()\<close> raises on \<^verbatim>\<open>None\<close>\<close>
  "url_locs [] st = (None, st)"
| "url_locs (None # locs) st =
     (Some (AttributeError ''NoneType object has no attribute lower''), st)"
| "url_locs (Some loc # locs) st =
     url_locs locs
       (if endswith (lower loc) ''.xml'' then enqueue_new (Some loc) st
        else st\<lparr>all_final_urls := insert loc (all_final_urls st)\<rparr>)"

definition process_content :: "string option \<Rightarrow> body \<Rightarrow> resolver \<Rightarrow> resolver" where
  "process_content current_sitemap_url content st =
     (case content of
        Empty \<Rightarrow> st
      | Malformed \<Rightarrow> st\<lparr>console := console st @ [ParseErrorMessage current_sitemap_url]\<rparr>
      | Document tag locs \<Rightarrow>
          if endswith tag ''sitemapindex'' then index_locs locs st
          else if endswith tag ''urlset'' then
            (case url_locs locs st of
               (None, st') \<Rightarrow> st'
             | (Some e, st') \<Rightarrow>
                 st'\<lparr>console := console st' @ [UnexpectedError current_sitemap_url]\<rparr>)
          else st\<lparr>console := console st @ [UnknownRootTag tag current_sitemap_url]\<rparr>)"

definition sitemap_step :: "web \<Rightarrow> resolver \<Rightarrow> resolver" where
  \<comment> \<open>one round of the \<^verbatim>\<open>while\<close> loop, the queue not being empty\<close>
  "sitemap_step web st =
     (case sitemaps_to_process st of
        [] \<Rightarrow> st
      | current_sitemap_url # rest \<Rightarrow>
          (let st1 = st\<lparr>sitemaps_to_process := rest\<rparr> in
           if current_sitemap_url \<in> processed_sitemaps st1 then st1
           else
             (let st2 = st1\<lparr>processed_sitemaps :=
                               insert current_sitemap_url (processed_sitemaps st1)\<rparr>
              in case fetch_url_content web current_sitemap_url st2 of
                   (None, st3) \<Rightarrow> st3
                 | (Some content, st3) \<Rightarrow> process_content current_sitemap_url content st3)))"

definition web_locs :: "web \<Rightarrow> string option set" where
  \<comment> \<open>every location that some document of the web names\<close>
  "web_locs web =
     (\<Union>entry \<in> set web. case snd entry of Document tag locs \<Rightarrow> set locs | _ \<Rightarrow> {})"

lemma enqueue_new_simps [simp]:
  "processed_sitemaps (enqueue_new loc st) = processed_sitemaps st"
  "all_final_urls (enqueue_new loc st) = all_final_urls st"
  "requests_sent (enqueue_new loc st) = requests_sent st"
  by (simp_all add: enqueue_new_def)

lemma enqueue_new_queue:
  "set (sitemaps_to_process (enqueue_new loc st)) \<subseteq> insert loc (set (sitemaps_to_process st))"
  "set (sitemaps_to_process st) \<subseteq> set (sitemaps_to_process (enqueue_new loc st))"
  by (auto simp: enqueue_new_def)

lemma index_locs_simps [simp]:
  "processed_sitemaps (index_locs locs st) = processed_sitemaps st"
  "all_final_urls (index_locs locs st) = all_final_urls st"
  "requests_sent (index_locs locs st) = requests_sent st"
  by (induction locs arbitrary: st) simp_all

lemma index_locs_queue:
  "set (sitemaps_to_process (index_locs locs st)) \<subseteq> set (sitemaps_to_process st) \<union> set locs"
proof (induction locs arbitrary: st)
  case Nil
  then show ?case by simp
next
  case (Cons loc locs)
  from Cons.IH[of "enqueue_new loc st"] enqueue_new_queue(1)[of loc st]
  show ?case by auto
qed

lemma url_locs_simps [simp]:
  "processed_sitemaps (snd (url_locs locs st)) = processed_sitemaps st"
  "requests_sent (snd (url_locs locs st)) = requests_sent st"
  by (induction locs st rule: url_locs.induct) simp_all

lemma url_locs_queue:
  "set (sitemaps_to_process (snd (url_locs locs st))) \<subseteq> set (sitemaps_to_process st) \<union> set locs"
proof (induction locs st rule: url_locs.induct)
  case (3 loc locs st)
  then show ?case using enqueue_new_queue(1)[of "Some loc" st] by (auto split: if_splits)
qed auto

lemma process_content_urlset:
  assumes "\<not> endswith tag ''sitemapindex''" "endswith tag ''urlset''"
  shows "\<exists>msgs. process_content cur (Document tag locs) st
           = (snd (url_locs locs st))\<lparr>console := console (snd (url_locs locs st)) @ msgs\<rparr>"
proof (cases "url_locs locs st")
  case (Pair e st')
  show ?thesis
  proof (cases e)
    case None
    with Pair assms have "process_content cur (Document tag locs) st = st'\<lparr>console := console st' @ []\<rparr>"
      by (simp add: process_content_def)
    with Pair show ?thesis by (metis snd_conv)
  next
    case (Some a)
    with Pair assms have "process_content cur (Document tag locs) st
        = st'\<lparr>console := console st' @ [UnexpectedError cur]\<rparr>"
      by (simp add: process_content_def)
    with Pair show ?thesis by (metis snd_conv)
  qed
qed

lemma process_content_processed [simp]:
  "processed_sitemaps (process_content cur content st) = processed_sitemaps st"
proof (cases content)
  case (Document tag locs)
  show ?thesis
  proof (cases "\<not> endswith tag ''sitemapindex'' \<and> endswith tag ''urlset''")
    case True
    then obtain msgs where "process_content cur (Document tag locs) st
           = (snd (url_locs locs st))\<lparr>console := console (snd (url_locs locs st)) @ msgs\<rparr>"
      using process_content_urlset by blast
    with Document show ?thesis by simp
  next
    case False
    with Document show ?thesis by (auto simp: process_content_def)
  qed
qed (simp_all add: process_content_def)

lemma process_content_requests [simp]:
  "requests_sent (process_content cur content st) = requests_sent st"
proof (cases content)
  case (Document tag locs)
  show ?thesis
  proof (cases "\<not> endswith tag ''sitemapindex'' \<and> endswith tag ''urlset''")
    case True
    then obtain msgs where "process_content cur (Document tag locs) st
           = (snd (url_locs locs st))\<lparr>console := console (snd (url_locs locs st)) @ msgs\<rparr>"
      using process_content_urlset by blast
    with Document show ?thesis by simp
  next
    case False
    with Document show ?thesis by (auto simp: process_content_def)
  qed
qed (simp_all add: process_content_def)

lemma process_content_queue:
  "set (sitemaps_to_process (process_content cur content st))
   \<subseteq> set (sitemaps_to_process st) \<union> (case content of Document tag locs \<Rightarrow> set locs | _ \<Rightarrow> {})"
proof (cases content)
  case (Document tag locs)
  show ?thesis
  proof (cases "\<not> endswith tag ''sitemapindex'' \<and> endswith tag ''urlset''")
    case True
    then obtain msgs where "process_content cur (Document tag locs) st
           = (snd (url_locs locs st))\<lparr>console := console (snd (url_locs locs st)) @ msgs\<rparr>"
      using process_content_urlset by blast
    with Document url_locs_queue[of locs st] show ?thesis by simp
  next
    case False
    with Document index_locs_queue[of locs st] show ?thesis
      by (auto simp: process_content_def)
  qed
qed (simp_all add: process_content_def)

lemma fetch_url_content_simps [simp]:
  "processed_sitemaps (snd (fetch_url_content web url st)) = processed_sitemaps st"
  "sitemaps_to_process (snd (fetch_url_content web url st)) = sitemaps_to_process st"
  "all_final_urls (snd (fetch_url_content web url st)) = all_final_urls st"
  by (simp_all add: fetch_url_content_def Let_def split: option.splits)

lemma fetch_url_content_Some:
  "fst (fetch_url_content web url st) = Some content \<Longrightarrow> \<exists>u. url = Some u \<and> (u, content) \<in> set web"
  by (auto simp: fetch_url_content_def Let_def http_get_def requests_get_def
      split: option.splits dest: map_of_SomeD)

lemma web_locs_Document:
  "(u, Document tag locs) \<in> set web \<Longrightarrow> set locs \<subseteq> web_locs web"
  by (force simp: web_locs_def)

lemma sitemap_step_processed:
  assumes "sitemaps_to_process st = cur # rest" "cur \<in> processed_sitemaps st"
  shows "sitemap_step web st = st\<lparr>sitemaps_to_process := rest\<rparr>"
  using assms by (simp add: sitemap_step_def)

lemma sitemap_step_fresh:
  assumes "sitemaps_to_process st = cur # rest" "cur \<notin> processed_sitemaps st"
  shows "processed_sitemaps (sitemap_step web st) = insert cur (processed_sitemaps st)"
    and "set (sitemaps_to_process (sitemap_step web st)) \<subseteq> set rest \<union> web_locs web"
proof -
  let ?st2 = "st\<lparr>sitemaps_to_process := rest,
                 processed_sitemaps := insert cur (processed_sitemaps st)\<rparr>"
  obtain c st3 where f: "fetch_url_content web cur ?st2 = (c, st3)" by (cases "fetch_url_content web cur ?st2")
  have st3: "processed_sitemaps st3 = insert cur (processed_sitemaps st)"
    "sitemaps_to_process st3 = rest"
    using fetch_url_content_simps(1,2)[of web cur ?st2] f by simp_all
  have step: "sitemap_step web st = (case c of None \<Rightarrow> st3 | Some content \<Rightarrow> process_content cur content st3)"
    using assms f by (simp add: sitemap_step_def Let_def split: option.splits)
  show "processed_sitemaps (sitemap_step web st) = insert cur (processed_sitemaps st)"
    using step st3 by (simp split: option.splits)
  show "set (sitemaps_to_process (sitemap_step web st)) \<subseteq> set rest \<union> web_locs web"
  proof (cases c)
    case None
    with step st3 show ?thesis by simp
  next
    case (Some content)
    with f have "fst (fetch_url_content web cur ?st2) = Some content" by simp
    then obtain u where u: "(u, content) \<in> set web" using fetch_url_content_Some by blast
    have "(case content of Document tag locs \<Rightarrow> set locs | _ \<Rightarrow> {}) \<subseteq> web_locs web"
      using u by (cases content) (auto dest: web_locs_Document)
    with process_content_queue[of cur content st3] st3 step Some show ?thesis by auto
  qed
qed

lemma finite_web_locs: "finite (web_locs web)"
  by (auto simp: web_locs_def split: body.splits)

text \<open>
  The \<^verbatim>\<open>while sitemaps_to_process\<close> loop. Every round either shortens the queue or
  marks as processed a URL that is queued or named in the web, of which there are
  finitely many; so the loop ends, whatever cycles the references form.
\<close>

function sitemap_loop :: "web \<Rightarrow> resolver \<Rightarrow> resolver" where
  "sitemap_loop web st =
     (if sitemaps_to_process st = [] then st else sitemap_loop web (sitemap_step web st))"
  by pat_completeness auto
termination
proof (relation "(\<lambda>(web, st). card ((set (sitemaps_to_process st) \<union> web_locs web)
                     - processed_sitemaps st))
                 <*mlex*> measure (\<lambda>(web, st). length (sitemaps_to_process st))", goal_cases)
  case 1
  show ?case by (simp add: wf_mlex)
next
  case (2 web st)
  then obtain cur rest where q: "sitemaps_to_process st = cur # rest"
    by (cases "sitemaps_to_process st") auto
  let ?U = "\<lambda>st. (set (sitemaps_to_process st) \<union> web_locs web) - processed_sitemaps st"
  have fin: "finite (?U st)" by (simp add: finite_web_locs)
  show ?case
  proof (cases "cur \<in> processed_sitemaps st")
    case True
    have s: "sitemap_step web st = st\<lparr>sitemaps_to_process := rest\<rparr>"
      using sitemap_step_processed[OF q True] .
    have "?U (sitemap_step web st) \<subseteq> ?U st" using q s by auto
    then have "card (?U (sitemap_step web st)) \<le> card (?U st)"
      using fin by (rule_tac card_mono)
    moreover have "length (sitemaps_to_process (sitemap_step web st)) < length (sitemaps_to_process st)"
      using q s by simp
    ultimately show ?thesis by (auto intro!: mlex_leq)
  next
    case False
    note f = sitemap_step_fresh[OF q False, of web]
    have "?U (sitemap_step web st) \<subseteq> ?U st - {cur}" using q f by auto
    moreover have "cur \<in> ?U st" using q False by simp
    ultimately have "?U (sitemap_step web st) \<subset> ?U st" by blast
    then have "card (?U (sitemap_step web st)) < card (?U st)"
      using fin by (rule_tac psubset_card_mono)
    then show ?thesis by (auto intro!: mlex_less)
  qed
qed

declare sitemap_loop.simps [simp del]

definition sitemap_run :: "web \<Rightarrow> string \<Rightarrow> resolver" where
  \<comment> \<open>the state of \<^verbatim>\<open>get_all_urls_from_sitemap\<close> when its loop has ended\<close>
  "sitemap_run web initial_sitemap_url =
     sitemap_loop web
       \<lparr>all_final_urls = {}, sitemaps_to_process = [Some initial_sitemap_url],
        processed_sitemaps = {}, requests_sent = [], console = []\<rparr>"

definition get_all_urls_from_sitemap :: "web \<Rightarrow> string \<Rightarrow> string set" where
  \<comment> \<open>the returned list holds the elements of this set, in no particular order\<close>
  "get_all_urls_from_sitemap web initial_sitemap_url =
     all_final_urls (sitemap_run web initial_sitemap_url)"

subsection \<open>Facts about the traversal\<close>

lemma fetch_url_content_requests:
  "requests_sent (snd (fetch_url_content web url st))
   = requests_sent st @ [requests_get url [(''timeout'', 10)] []]"
  by (simp add: fetch_url_content_def Let_def split: option.splits)

lemma sitemap_step_requests:
  assumes "sitemaps_to_process st = cur # rest"
  shows "requests_sent (sitemap_step web st)
         = (if cur \<in> processed_sitemaps st then requests_sent st
            else requests_sent st @ [requests_get cur [(''timeout'', 10)] []])"
proof (cases "cur \<in> processed_sitemaps st")
  case True
  with assms show ?thesis by (simp add: sitemap_step_processed)
next
  case False
  let ?st2 = "st\<lparr>sitemaps_to_process := rest,
                 processed_sitemaps := insert cur (processed_sitemaps st)\<rparr>"
  obtain c st3 where f: "fetch_url_content web cur ?st2 = (c, st3)"
    by (cases "fetch_url_content web cur ?st2")
  have "requests_sent st3 = requests_sent st @ [requests_get cur [(''timeout'', 10)] []]"
    using fetch_url_content_requests[of web cur ?st2] f by simp
  moreover have "sitemap_step web st
      = (case c of None \<Rightarrow> st3 | Some content \<Rightarrow> process_content cur content st3)"
    using assms f False by (simp add: sitemap_step_def Let_def split: option.splits)
  ultimately show ?thesis using False by (simp split: option.splits)
qed

lemma sitemap_loop_invariant:
  "P st \<Longrightarrow> (\<And>s. P s \<Longrightarrow> sitemaps_to_process s \<noteq> [] \<Longrightarrow> P (sitemap_step web s))
   \<Longrightarrow> P (sitemap_loop web st) \<and> sitemaps_to_process (sitemap_loop web st) = []"
proof (induction web st rule: sitemap_loop.induct)
  case (1 web st)
  show ?case
  proof (cases "sitemaps_to_process st = []")
    case True
    with "1.prems" show ?thesis by (simp add: sitemap_loop.simps[of web st])
  next
    case False
    have "P (sitemap_step web st)" using "1.prems" False by blast
    from "1.IH"[OF False this "1.prems"(2)] False
    show ?thesis by (simp add: sitemap_loop.simps[of web st])
  qed
qed

definition fetched_once :: "resolver \<Rightarrow> bool" where
  "fetched_once st =
     (distinct (map req_url (requests_sent st))
      \<and> set (map req_url (requests_sent st)) \<subseteq> processed_sitemaps st)"

lemma fetched_once_step:
  assumes "fetched_once st" "sitemaps_to_process st \<noteq> []"
  shows "fetched_once (sitemap_step web st)"
proof -
  from assms(2) obtain cur rest where q: "sitemaps_to_process st = cur # rest"
    by (cases "sitemaps_to_process st") auto
  show ?thesis
  proof (cases "cur \<in> processed_sitemaps st")
    case True
    with assms(1) q show ?thesis by (simp add: sitemap_step_processed fetched_once_def)
  next
    case False
    have "req_url (requests_get cur [(''timeout'', 10)] []) = cur"
      by (simp add: requests_get_def)
    with assms(1) False sitemap_step_requests[OF q, of web] sitemap_step_fresh(1)[OF q False, of web]
    show ?thesis by (auto simp: fetched_once_def)
  qed
qed

text \<open>
  C3. For every finite collection of sitemap documents, whatever cycles their locations
  form, sitemap resolution terminates: \<open>sitemap_loop\<close> is a total function, and the
  state it ends in has an empty queue. No URL is fetched twice during the traversal.
\<close>

theorem sitemap_resolution_fetches_once:
  "sitemaps_to_process (sitemap_run web initial_sitemap_url) = []
   \<and> distinct (map req_url (requests_sent (sitemap_run web initial_sitemap_url)))"
proof -
  let ?init = "\<lparr>all_final_urls = {}, sitemaps_to_process = [Some initial_sitemap_url],
        processed_sitemaps = {}, requests_sent = [], console = []\<rparr>"
  have "fetched_once ?init" by (simp add: fetched_once_def)
  from sitemap_loop_invariant[of fetched_once ?init web, OF this fetched_once_step]
  show ?thesis by (simp add: sitemap_run_def fetched_once_def)
qed


























text \<open>A fetch that fails logs a warning, adds no URL, and the loop goes on with the rest of
  the queue.\<close>

lemma failed_fetch_continues:
  assumes "sitemaps_to_process st = Some u # rest" "Some u \<notin> processed_sitemaps st"
    "map_of web u = None"
  shows "sitemap_step web st =
     st\<lparr>sitemaps_to_process := rest,
        processed_sitemaps := insert (Some u) (processed_sitemaps st),
        requests_sent := requests_sent st @ [requests_get (Some u) [(''timeout'', 10)] []],
        console := console st @ [FetchWarning (Some u)]\<rparr>"
  using assms
  by (simp add: sitemap_step_def fetch_url_content_def http_get_def requests_get_def Let_def)

text \<open>
  C8 (code defect). The claim: every sitemap fetch is an HTTP GET issued with a fixed
  timeout. \<^verbatim>\<open>fetch_url_content\<close> hands the dictionary \<^verbatim>\<open>{"timeout": 10}\<close> to
  \<^verbatim>\<open>requests.get\<close> as its second positional argument, which is the query parameters:
  the request carries \<^verbatim>\<open>timeout=10\<close> in its query string and has no timeout.
\<close>

theorem sitemap_fetch_has_no_timeout:
  "requests_sent (sitemap_run [] ''https://example.com/sitemap.xml'')
   = [\<lparr>req_method = ''GET'', req_url = Some ''https://example.com/sitemap.xml'',
       req_params = [(''timeout'', 10)], req_timeout = None\<rparr>]"
  by code_simp

section \<open>The preview tree\<close>

text \<open>
  A \<^verbatim>\<open>rich.tree.Tree\<close> is a mutable node with a label and a list of children;
  \<^verbatim>\<open>add\<close> appends a new child and returns it, and \<^verbatim>\<open>dir_trees\<close> keeps references to
  the directory nodes. The nodes live in a store: node \<open>i\<close> is entry \<open>i\<close> of the list, with
  its label and the numbers of its children; node 0 is the tree that is returned.
\<close>

datatype label = RootLabel string nat | DirLabel string | FileLabel string

type_synonym tree_store = "(label \<times> nat list) list"

definition tree_add :: "nat \<Rightarrow> label \<Rightarrow> tree_store \<Rightarrow> nat \<times> tree_store" where
  \<comment> \<open>\<^verbatim>\<open>parent.add(label)\<close>: the new node and the store\<close>
  "tree_add parent lbl nodes =
     (length nodes,
      nodes[parent := (fst (nodes ! parent), snd (nodes ! parent) @ [length nodes])]
        @ [(lbl, [])])"

fun add_dirs ::
  "string list \<Rightarrow> nat \<Rightarrow> string \<Rightarrow> (string \<times> nat) list \<Rightarrow> tree_store
   \<Rightarrow> nat \<times> (string \<times> nat) list \<times> tree_store" where
  \<comment> \<open>the loop \<^verbatim>\<open>for part in parts\<close>; the value is \<^verbatim>\<open>current_tree\<close>, \<^verbatim>\<open>dir_trees\<close> and
      the store\<close>
  "add_dirs [] current_tree current_path dir_trees nodes = (current_tree, dir_trees, nodes)"
| "add_dirs (part # parts) current_tree current_path dir_trees nodes =
     (let current_path' = (if current_path \<noteq> [] then os_path_join current_path [part] else part)
      in case map_of dir_trees current_path' of
           None \<Rightarrow>
             (let (new, nodes') = tree_add current_tree (DirLabel part) nodes
              in add_dirs parts new current_path' (AList.update current_path' new dir_trees) nodes')
         | Some t \<Rightarrow> add_dirs parts t current_path' dir_trees nodes)"

record preview =
  file_organizer :: used_names
  dir_trees :: "(string \<times> nat) list"
  tree :: tree_store

fun preview_urls :: "string list \<Rightarrow> preview \<Rightarrow> error + preview" where
  \<comment> \<open>the loop \<^verbatim>\<open>for url in urls\<close>\<close>
  "preview_urls [] st = Inr st"
| "preview_urls (url # urls) st =
     (case organize_path url (file_organizer st) of
        Inl e \<Rightarrow> Inl e
      | Inr ((subdir, filename), organizer') \<Rightarrow>
          if subdir = [] then
            preview_urls urls
              (st\<lparr>file_organizer := organizer',
                  tree := snd (tree_add 0 (FileLabel filename) (tree st))\<rparr>)
          else
            (let parts = str_split CHR ''/'' subdir;
                 (current_tree, dir_trees', nodes') = add_dirs parts 0 '''' (dir_trees st) (tree st)
             in preview_urls urls
                  (st\<lparr>file_organizer := organizer', dir_trees := dir_trees',
                      tree := snd (tree_add current_tree (FileLabel filename) nodes')\<rparr>)))"

definition preview_file_structure :: "string list \<Rightarrow> string \<Rightarrow> error + tree_store" where
  "preview_file_structure urls0 base_dir =
     (let urls = sort urls0;
          url_count = length urls
      in case preview_urls urls
                \<lparr>file_organizer = FileOrganizer, dir_trees = [],
                 tree = [(RootLabel base_dir url_count, [])]\<rparr> of
           Inl e \<Rightarrow> Inl e
         | Inr st \<Rightarrow> Inr (tree st))"


section \<open>Crawling\<close>

text \<open>
  What the run does to the outside is kept as a log: the pages given to the crawler, the
  directories made, the files written with their content. What the outside does to the run
  is the environment: the sitemap documents, what the fetch of a page settles to under
  \<^verbatim>\<open>asyncio.gather(*tasks, return_exceptions=True)\<close> (an exception, or a result with its
  success flag and its markdown), whether awaiting a chunk raises, and whether writing a
  file raises. Console output, the progress bar, memory sampling, and the start and the
  close of the browser are left out.
\<close>

datatype crawl_result = Raised string | CrawlResult bool string

record env =
  sitemaps :: web
  arun :: "string \<Rightarrow> crawl_result"
  gather_raises :: "string list \<Rightarrow> bool"
  write_raises :: "string \<Rightarrow> bool"
  cwd :: string

record world =
  pages_fetched :: "string list"
  dirs_made :: "string list"
  files_written :: "(string \<times> string) list"

record crawl =
  success_count :: nat
  fail_count :: nat
  organizer :: used_names
  outside :: world

fun process_results ::
  "env \<Rightarrow> string \<Rightarrow> (string \<times> crawl_result) list \<Rightarrow> crawl \<Rightarrow> error option \<times> crawl" where
  \<comment> \<open>the loop \<^verbatim>\<open>for url, result in zip(batch, results)\<close>; an exception ends it, with the
      counters as they stand\<close>
  "process_results e output_dir [] st = (None, st)"
| "process_results e output_dir ((url, Raised msg) # rest) st =
     process_results e output_dir rest (st\<lparr>fail_count := fail_count st + 1\<rparr>)"
| "process_results e output_dir ((url, CrawlResult success markdown) # rest) st =
     (if success then
        (let st1 = st\<lparr>success_count := success_count st + 1\<rparr> in
         case organize_path url (organizer st1) of
           Inl err \<Rightarrow> (Some err, st1)
         | Inr ((subdir, filename), organizer') \<Rightarrow>
             (let full_dir = os_path_join output_dir [subdir];
                  st2 = st1\<lparr>organizer := organizer',
                           outside := (outside st1)\<lparr>dirs_made := dirs_made (outside st1) @ [full_dir]\<rparr>\<rparr>;
                  file_path = os_path_join full_dir [filename]
              in if write_raises e file_path then (Some (OSError file_path), st2)
                 else process_results e output_dir rest
                        (st2\<lparr>outside := (outside st2)\<lparr>files_written :=
                                files_written (outside st2) @ [(file_path, markdown)]\<rparr>\<rparr>)))
      else process_results e output_dir rest (st\<lparr>fail_count := fail_count st + 1\<rparr>))"

definition gather_and_store ::
  "env \<Rightarrow> string \<Rightarrow> string list \<Rightarrow> crawl \<Rightarrow> error option \<times> crawl" where
  \<comment> \<open>the chunk once \<^verbatim>\<open>gather\<close> has returned: every fetch has settled, and the results are
      gone through\<close>
  "gather_and_store e output_dir batch st =
     (let results = map (arun e) batch;
          st1 = st\<lparr>outside := (outside st)\<lparr>pages_fetched :=
                    pages_fetched (outside st) @ batch\<rparr>\<rparr>
      in process_results e output_dir (zip batch results) st1)"

definition crawl_batch :: "env \<Rightarrow> string \<Rightarrow> string list \<Rightarrow> crawl \<Rightarrow> crawl" where
  \<comment> \<open>the inner \<^verbatim>\<open>try\<close> of one chunk, with its handler\<close>
  "crawl_batch e output_dir batch st =
     (if gather_raises e batch
      then st\<lparr>fail_count := fail_count st + length batch\<rparr>
      else
        (case gather_and_store e output_dir batch st of
           (None, st2) \<Rightarrow> st2
         | (Some err, st2) \<Rightarrow> st2\<lparr>fail_count := fail_count st2 + length batch\<rparr>))"

function crawl_loop :: "env \<Rightarrow> string \<Rightarrow> string list \<Rightarrow> nat \<Rightarrow> nat \<Rightarrow> crawl \<Rightarrow> crawl" where
  \<comment> \<open>\<^verbatim>\<open>for i in range(0, len(urls), max_concurrent)\<close>, from \<open>i\<close> on\<close>
  "crawl_loop e output_dir urls max_concurrent i st =
     (if 0 < max_concurrent \<and> i < length urls
      then crawl_loop e output_dir urls max_concurrent (i + max_concurrent)
             (crawl_batch e output_dir (take max_concurrent (drop i urls)) st)
      else st)"
  by pat_completeness auto
termination
  by (relation "measure (\<lambda>(e, output_dir, urls, max_concurrent, i, st). length urls - i)") auto

declare crawl_loop.simps [simp del]

definition crawl_parallel ::
  "env \<Rightarrow> string \<Rightarrow> string list \<Rightarrow> int \<Rightarrow> world \<Rightarrow> error option \<times> crawl" where
  \<comment> \<open>\<^verbatim>\<open>range\<close> raises on a step of zero, which the outer handler raises again, and is
      empty on a negative step\<close>
  "crawl_parallel e output_dir urls max_concurrent w =
     (let st = \<lparr>success_count = 0, fail_count = 0, organizer = FileOrganizer,
                outside = w\<lparr>dirs_made := dirs_made w @ [output_dir]\<rparr>\<rparr>
      in if max_concurrent = 0 then (Some (ValueError ''range() arg 3 must not be zero''), st)
         else (None, crawl_loop e output_dir urls (nat max_concurrent) 0 st))"

section \<open>main\<close>

definition get_sitemap_url :: "string \<Rightarrow> string" where
  "get_sitemap_url site_url0 =
     (let site_url1 = (if \<not> (startswith site_url0 ''http://'' \<or> startswith site_url0 ''https://'')
                       then ''https://'' @ site_url0 else site_url0);
          site_url2 = (if endswith site_url1 ''/'' then butlast site_url1 else site_url1)
      in site_url2 @ ''/sitemap.xml'')"

definition root_url_of :: "string \<Rightarrow> string option" where
  \<comment> \<open>the body of the loop over \<^verbatim>\<open>all_urls\<close>: a URL that does not parse, or lacks scheme or
      host, is skipped with a warning\<close>
  "root_url_of url =
     (case urlparse url of
        Inl e \<Rightarrow> None
      | Inr parsed \<Rightarrow>
          if scheme parsed \<noteq> [] \<and> netloc parsed \<noteq> []
          then Some (scheme parsed @ ''://'' @ netloc parsed @ ''/'')
          else None)"

definition urls_to_process :: "web \<Rightarrow> string \<Rightarrow> parse_result \<Rightarrow> string list" where
  \<comment> \<open>the URL list of \<^verbatim>\<open>main\<close>; \<open>parsed_root\<close> is \<^verbatim>\<open>urlparse(site_url)\<close>\<close>
  "urls_to_process sitemap_web site_url parsed_root =
     (let initial_sitemap_url = (if endswith (lower site_url) ''.xml'' then site_url
                                 else get_sitemap_url site_url);
          all_urls = get_all_urls_from_sitemap sitemap_web initial_sitemap_url
      in if all_urls = {}
         then [scheme parsed_root @ ''://'' @ netloc parsed_root @ ''/'']
         else sorted_list_of_set (Option.these (root_url_of ` all_urls)))"

datatype outcome = Preview tree_store | Summary nat nat

definition main :: "env \<Rightarrow> string \<Rightarrow> int \<Rightarrow> bool \<Rightarrow> world \<Rightarrow> (error + outcome) \<times> world" where
  \<comment> \<open>the value is what \<^verbatim>\<open>main\<close> raised, or what it printed last (the preview tree, or the
      counts of the summary), and the log of what it did\<close>
  "main e site_url max_concurrent dry_run w =
     (case urlparse site_url of
        Inl err \<Rightarrow> (Inl err, w)
      | Inr parsed_uri \<Rightarrow>
          (let domain_for_folder = netloc parsed_uri;
               urls = urls_to_process (sitemaps e) site_url parsed_uri;
               output_folder = os_path_join (cwd e) [domain_for_folder]
           in if dry_run then
                (case preview_file_structure urls domain_for_folder of
                   Inl err \<Rightarrow> (Inl err, w)
                 | Inr t \<Rightarrow> (Inr (Preview t), w))
              else
                (case crawl_parallel e output_folder urls max_concurrent
                        (w\<lparr>dirs_made := dirs_made w @ [output_folder]\<rparr>) of
                   (Some err, st) \<Rightarrow> (Inl err, outside st)
                 | (None, st) \<Rightarrow>
                     (Inr (Summary (success_count st) (fail_count st)), outside st))))"

section \<open>The fallback to the site root\<close>

text \<open>
  C5 (code defect). The claim: when the resolver returns no URL, the run crawls exactly one
  URL, the site root \<^verbatim>\<open>scheme://host/\<close>, with \<^verbatim>\<open>https://\<close> defaulted when the input has
  no scheme. \<^verbatim>\<open>get_sitemap_url\<close> defaults the scheme for the sitemap URL, but the fallback
  parses the original \<^verbatim>\<open>site_url\<close>: for \<^verbatim>\<open>example.com\<close> scheme and host are both empty,
  and the one URL crawled is \<^verbatim>\<open>:///\<close>.
\<close>

theorem fallback_root_without_scheme:
  "main \<lparr>sitemaps = [], arun = (\<lambda>url. CrawlResult True ''page''),
         gather_raises = (\<lambda>batch. False), write_raises = (\<lambda>file_path. False),
         cwd = ''/work''\<rparr>
     ''example.com'' 3 False \<lparr>pages_fetched = [], dirs_made = [], files_written = []\<rparr>
   = (Inr (Summary 1 0),
      \<lparr>pages_fetched = ['':///''], dirs_made = [''/work/'', ''/work/'', ''/work/''],
       files_written = [(''/work/index.md'', ''page'')]\<rparr>)"
  by code_simp

lemma get_sitemap_url_defaults_scheme: "get_sitemap_url ''example.com'' = ''https://example.com/sitemap.xml''"
  by code_simp

section \<open>Counting the outcomes of a chunk\<close>





definition scenario_env :: env where
  "scenario_env =
     \<lparr>sitemaps = [],
      arun = (\<lambda>url. if url = ''http://b/'' then Raised ''boom'' else CrawlResult True ''page''),
      gather_raises = (\<lambda>batch. batch = [''http://d/'']),
      write_raises = (\<lambda>file_path. False), cwd = ''/work''\<rparr>"

definition scenario_start :: crawl where
  "scenario_start =
     \<lparr>success_count = 0, fail_count = 0, organizer = FileOrganizer,
      outside = \<lparr>pages_fetched = [], dirs_made = [], files_written = []\<rparr>\<rparr>"


lemma scenario_first_chunk: "success_count (crawl_batch scenario_env ''/out'' [''http://a/'', ''http://b/'', ''http://c/''] scenario_start) = 2"
   "fail_count (crawl_batch scenario_env ''/out'' [''http://a/'', ''http://b/'', ''http://c/''] scenario_start) = 1"
  by code_simp+






section \<open>The dry run\<close>

subsection \<open>Directories as joined parts\<close>


























subsection \<open>Counting the leaf entries\<close>





















subsection \<open>Root URLs parse again\<close>

















subsection \<open>The preview of main\<close>













text \<open>A preview with directories: five URLs, five leaf entries.\<close>

lemma preview_example:
  "preview_file_structure
     [''http://s/a/b/c'', ''http://s/a/b/d'', ''http://s/a/e'', ''http://s/f'', ''http://s/''] ''s''
   = Inr [(RootLabel ''s'' 5, [1, 2, 7]), (FileLabel ''index.md'', []),
          (DirLabel ''A'', [3, 6]), (DirLabel ''B'', [4, 5]),
          (FileLabel ''C.md'', []), (FileLabel ''D.md'', []),
          (FileLabel ''E.md'', []), (FileLabel ''F.md'', [])]"
  by code_simp

end
